theory Spec2Isabelle
  imports Main
begin

section \<open>The schema of supabase/migrations/20250329153105_soft_waterfall.sql\<close>

text \<open>
  The ledger logic of the application is the SQL migration: three tables with their
  constraints, one row-level-security policy per statement kind, and the two trigger
  functions \<^verbatim>\<open>log_activity\<close> and \<^verbatim>\<open>update_account_balance\<close>. The front end
  (\<^verbatim>\<open>src/pages/Transactions.tsx\<close>) issues two statements against it: the INSERT of
  \<^verbatim>\<open>handleNewTransaction\<close> and the UPDATE of \<^verbatim>\<open>handleStatusChange\<close>.

  A table is the list of its rows. A nullable column is an \<open>option\<close>, with \<open>None\<close>
  for NULL. A \<^verbatim>\<open>decimal(10,2)\<close> value is the integer number of its hundredths, so
  that \<^verbatim>\<open>100.00\<close> is \<open>10000\<close>; storing a value of \<open>10 ^ 10\<close> hundredths or more
  (in absolute value) raises \<^verbatim>\<open>numeric_value_out_of_range\<close>. \<^verbatim>\<open>now()\<close>,
  \<^verbatim>\<open>gen_random_uuid()\<close> and \<^verbatim>\<open>auth.uid()\<close> are parameters of the statements.
\<close>

datatype user_role = admin | staff | student

datatype transaction_type = payment | fee | fine

datatype transaction_status = pending | approved | rejected

type_synonym uuid = nat

type_synonym timestamptz = nat

type_synonym decimal_10_2 = int

record users_row =
  u_id :: uuid
  u_role :: user_role
  u_full_name :: string
  u_student_id :: "string option"
  u_department :: "string option"
  u_created_at :: "timestamptz option"

record transactions_row =
  t_id :: uuid
  t_user_id :: uuid
  t_type :: transaction_type
  t_amount :: decimal_10_2
  t_description :: string
  t_status :: "transaction_status option"
  t_approved_by :: "uuid option"
  t_created_at :: "timestamptz option"

record accounts_row =
  a_id :: uuid
  a_user_id :: uuid
  a_balance :: "decimal_10_2 option"
  a_last_updated :: "timestamptz option"
  a_created_at :: "timestamptz option"

text \<open>The value of \<^verbatim>\<open>row_to_json\<close> on a row of either logged table.\<close>

datatype row_json = transactions_json transactions_row | accounts_json accounts_row

datatype tg_op = INSERT | UPDATE | DELETE

text \<open>The object built by \<^verbatim>\<open>jsonb_build_object\<close> in \<^verbatim>\<open>log_activity\<close>.\<close>

record log_details =
  d_table :: string
  d_operation :: string
  d_record_id :: "uuid option"
  d_new_data :: "row_json option"
  d_old_data :: "row_json option"

text \<open>
  A row of \<^verbatim>\<open>activity_logs\<close>. Its generated \<^verbatim>\<open>id\<close> is left out: nothing reads it,
  and a record is identified by its position in the table.
\<close>

record activity_logs_row =
  l_user_id :: uuid
  l_action :: string
  l_details :: log_details
  l_created_at :: "timestamptz option"

record db =
  users :: "users_row list"
  transactions :: "transactions_row list"
  accounts :: "accounts_row list"
  activity_logs :: "activity_logs_row list"

text \<open>The error conditions a statement can raise; each aborts the whole statement.\<close>

datatype error =
    numeric_value_out_of_range
  | check_violation string
  | not_null_violation string
  | unique_violation string
  | foreign_key_violation string
  | insufficient_privilege

section \<open>SQL expressions\<close>

text \<open>Comparison and conjunction in SQL are three-valued: \<open>None\<close> is \<^verbatim>\<open>unknown\<close>.\<close>

definition sql_eq :: "'a option \<Rightarrow> 'a option \<Rightarrow> bool option" where
  "sql_eq x y = (case x of None \<Rightarrow> None | Some a \<Rightarrow> (case y of None \<Rightarrow> None | Some b \<Rightarrow> Some (a = b)))"

definition sql_ge :: "int option \<Rightarrow> int option \<Rightarrow> bool option" where
  "sql_ge x y = (case x of None \<Rightarrow> None | Some a \<Rightarrow> (case y of None \<Rightarrow> None | Some b \<Rightarrow> Some (a \<ge> b)))"

definition sql_and :: "bool option \<Rightarrow> bool option \<Rightarrow> bool option" where
  "sql_and p q =
     (if p = Some False \<or> q = Some False then Some False
      else if p = Some True \<and> q = Some True then Some True
      else None)"

text \<open>An \<^verbatim>\<open>IF\<close>, a \<^verbatim>\<open>WHEN\<close> and a policy take a branch only on \<^verbatim>\<open>true\<close>.\<close>

definition is_true :: "bool option \<Rightarrow> bool" where
  "is_true p = (p = Some True)"

text \<open>A \<^verbatim>\<open>CHECK\<close> constraint rejects a row only on \<^verbatim>\<open>false\<close>.\<close>

definition check_passes :: "bool option \<Rightarrow> bool" where
  "check_passes p = (p \<noteq> Some False)"

definition fits_decimal_10_2 :: "int \<Rightarrow> bool" where
  "fits_decimal_10_2 v = (\<bar>v\<bar> < 10 ^ 10)"

section \<open>Constraints\<close>

text \<open>
  \<^verbatim>\<open>CONSTRAINT student_id_required CHECK ((role = 'student' AND student_id IS NOT NULL)
  OR (role != 'student'))\<close>; \<^verbatim>\<open>role\<close> is \<^verbatim>\<open>NOT NULL\<close>, so no comparison is unknown.
\<close>

definition student_id_required :: "users_row \<Rightarrow> bool" where
  "student_id_required u =
     ((u_role u = student \<and> u_student_id u \<noteq> None) \<or> (u_role u \<noteq> student))"

text \<open>\<^verbatim>\<open>CONSTRAINT positive_amount CHECK (amount > 0)\<close>\<close>

definition positive_amount :: "transactions_row \<Rightarrow> bool" where
  "positive_amount t = (t_amount t > 0)"

text \<open>\<^verbatim>\<open>CONSTRAINT valid_balance CHECK (balance >= 0)\<close>; a NULL balance passes.\<close>

definition valid_balance :: "accounts_row \<Rightarrow> bool" where
  "valid_balance a = check_passes (sql_ge (a_balance a) (Some 0))"

text \<open>The key and reference constraints of the three tables, as predicates on a state.\<close>

definition users_pkey :: "db \<Rightarrow> bool" where
  "users_pkey d = distinct (map u_id (users d))"

definition transactions_pkey :: "db \<Rightarrow> bool" where
  "transactions_pkey d = distinct (map t_id (transactions d))"

definition accounts_pkey :: "db \<Rightarrow> bool" where
  "accounts_pkey d = distinct (map a_id (accounts d))"

definition accounts_user_id_key :: "db \<Rightarrow> bool" where
  "accounts_user_id_key d = distinct (map a_user_id (accounts d))"

definition references_users :: "db \<Rightarrow> uuid \<Rightarrow> bool" where
  "references_users d uid = (uid \<in> set (map u_id (users d)))"


definition accounts_user_id_fkey :: "db \<Rightarrow> bool" where
  "accounts_user_id_fkey d = list_all (\<lambda>a. references_users d (a_user_id a)) (accounts d)"

section \<open>Row-level security\<close>

text \<open>
  \<^verbatim>\<open>EXISTS (SELECT 1 FROM users WHERE users.id = auth.uid() AND users.role IN ('admin',
  'staff'))\<close>, the \<^verbatim>\<open>USING\<close> expression of "Admins and staff can approve transactions".
  With no session \<^verbatim>\<open>auth.uid()\<close> is NULL and no row matches.
\<close>

definition Admins_and_staff_can_approve_transactions :: "uuid option \<Rightarrow> db \<Rightarrow> bool" where
  "Admins_and_staff_can_approve_transactions auth_uid d =
     list_ex (\<lambda>u. is_true (sql_eq (Some (u_id u)) auth_uid) \<and> u_role u \<in> {admin, staff}) (users d)"

text \<open>\<^verbatim>\<open>WITH CHECK (user_id = auth.uid())\<close> of "Users can create their own transactions".\<close>

definition Users_can_create_their_own_transactions :: "uuid option \<Rightarrow> transactions_row \<Rightarrow> bool" where
  "Users_can_create_their_own_transactions auth_uid t =
     is_true (sql_eq (Some (t_user_id t)) auth_uid)"

section \<open>The trigger function log\_activity\<close>

fun row_user_id :: "row_json \<Rightarrow> uuid" where
  "row_user_id (transactions_json t) = t_user_id t"
| "row_user_id (accounts_json a) = a_user_id a"

fun row_id :: "row_json \<Rightarrow> uuid" where
  "row_id (transactions_json t) = t_id t"
| "row_id (accounts_json a) = a_id a"

fun tg_op_text :: "tg_op \<Rightarrow> string" where
  "tg_op_text INSERT = ''INSERT''"
| "tg_op_text UPDATE = ''UPDATE''"
| "tg_op_text DELETE = ''DELETE''"

text \<open>\<^verbatim>\<open>COALESCE(x, y)\<close>\<close>

definition COALESCE :: "'a option \<Rightarrow> 'a option \<Rightarrow> 'a option" where
  "COALESCE x y = (case x of Some v \<Rightarrow> Some v | None \<Rightarrow> y)"

text \<open>
  \<^verbatim>\<open>
  INSERT INTO activity_logs (user_id, action, details)
  VALUES (COALESCE(NEW.user_id, auth.uid()), TG_TABLE_NAME || '_' || TG_OP,
          jsonb_build_object('table', TG_TABLE_NAME, 'operation', TG_OP,
            'record_id', COALESCE(NEW.id, OLD.id),
            'new_data', row_to_json(NEW), 'old_data', row_to_json(OLD)));
  \<close>
  \<open>NEW\<close> is NULL in a DELETE and \<open>OLD\<close> is NULL in an INSERT. The column
  \<^verbatim>\<open>activity_logs.user_id\<close> is \<^verbatim>\<open>NOT NULL\<close> and references \<^verbatim>\<open>users\<close>.
\<close>

definition log_activity ::
  "string \<Rightarrow> tg_op \<Rightarrow> row_json option \<Rightarrow> row_json option \<Rightarrow> uuid option \<Rightarrow> timestamptz \<Rightarrow> db \<Rightarrow> error + db"
where
  "log_activity TG_TABLE_NAME TG_OP NEW OLD auth_uid now d =
     (case COALESCE (map_option row_user_id NEW) auth_uid of
        None \<Rightarrow> Inl (not_null_violation ''user_id'')
      | Some uid \<Rightarrow>
          if \<not> references_users d uid then Inl (foreign_key_violation ''activity_logs_user_id_fkey'')
          else Inr (d\<lparr>activity_logs := activity_logs d @
            [\<lparr>l_user_id = uid,
              l_action = TG_TABLE_NAME @ ''_'' @ tg_op_text TG_OP,
              l_details = \<lparr>d_table = TG_TABLE_NAME,
                           d_operation = tg_op_text TG_OP,
                           d_record_id = COALESCE (map_option row_id NEW) (map_option row_id OLD),
                           d_new_data = NEW,
                           d_old_data = OLD\<rparr>,
              l_created_at = Some now\<rparr>]\<rparr>))"

section \<open>The UPDATE of accounts and the trigger function update\_account\_balance\<close>

text \<open>
  The new version of one account row under \<^verbatim>\<open>SET balance = balance + delta,
  last_updated = now()\<close>: the sum is NULL when the balance is, it must fit the column,
  and the new row must pass \<^verbatim>\<open>valid_balance\<close>.
\<close>

definition accounts_set_balance :: "int \<Rightarrow> timestamptz \<Rightarrow> accounts_row \<Rightarrow> error + accounts_row" where
  "accounts_set_balance delta now a =
     (let b = map_option (\<lambda>v. v + delta) (a_balance a) in
      if \<not> (case b of None \<Rightarrow> True | Some v \<Rightarrow> fits_decimal_10_2 v) then Inl numeric_value_out_of_range
      else
        let a' = a\<lparr>a_balance := b, a_last_updated := Some now\<rparr> in
        if \<not> valid_balance a' then Inl (check_violation ''valid_balance'') else Inr a')"

text \<open>The rows of the table after the update, or the error of the first row that fails.\<close>

fun accounts_update_rows :: "uuid \<Rightarrow> int \<Rightarrow> timestamptz \<Rightarrow> accounts_row list \<Rightarrow> error + accounts_row list" where
  "accounts_update_rows uid delta now [] = Inr []"
| "accounts_update_rows uid delta now (a # rest) =
     (if a_user_id a = uid then
        (case accounts_set_balance delta now a of
           Inl e \<Rightarrow> Inl e
         | Inr a' \<Rightarrow>
             (case accounts_update_rows uid delta now rest of
                Inl e \<Rightarrow> Inl e
              | Inr rest' \<Rightarrow> Inr (a' # rest')))
      else
        (case accounts_update_rows uid delta now rest of
           Inl e \<Rightarrow> Inl e
         | Inr rest' \<Rightarrow> Inr (a # rest')))"

text \<open>
  \<^verbatim>\<open>log_accounts_trigger\<close>, \<^verbatim>\<open>AFTER UPDATE ... FOR EACH ROW\<close>: fired once for each
  updated row, given as the pair of its old and new version.
\<close>

fun log_accounts_trigger :: "(accounts_row \<times> accounts_row) list \<Rightarrow> uuid option \<Rightarrow> timestamptz \<Rightarrow> db \<Rightarrow> error + db" where
  "log_accounts_trigger [] auth_uid now d = Inr d"
| "log_accounts_trigger ((OLD, NEW) # rest) auth_uid now d =
     (case log_activity ''accounts'' UPDATE (Some (accounts_json NEW)) (Some (accounts_json OLD)) auth_uid now d of
        Inl e \<Rightarrow> Inl e
      | Inr d' \<Rightarrow> log_accounts_trigger rest auth_uid now d')"

text \<open>
  \<^verbatim>\<open>UPDATE accounts SET balance = balance + delta, last_updated = now()
  WHERE user_id = uid\<close>, with its row triggers. The statement runs inside a
  \<^verbatim>\<open>SECURITY DEFINER\<close> function, so no policy filters its rows.
\<close>

definition accounts_update_balance :: "uuid \<Rightarrow> int \<Rightarrow> uuid option \<Rightarrow> timestamptz \<Rightarrow> db \<Rightarrow> error + db" where
  "accounts_update_balance uid delta auth_uid now d =
     (case accounts_update_rows uid delta now (accounts d) of
        Inl e \<Rightarrow> Inl e
      | Inr rows' \<Rightarrow>
          log_accounts_trigger
            (filter (\<lambda>(OLD, NEW). a_user_id OLD = uid) (zip (accounts d) rows'))
            auth_uid now (d\<lparr>accounts := rows'\<rparr>))"

text \<open>
  \<^verbatim>\<open>
  IF NEW.status = 'approved' AND OLD.status = 'pending' THEN
    IF NEW.type = 'payment' THEN
      UPDATE accounts SET balance = balance + NEW.amount, last_updated = now()
      WHERE user_id = NEW.user_id;
    ELSIF NEW.type IN ('fee', 'fine') THEN
      UPDATE accounts SET balance = balance - NEW.amount, last_updated = now()
      WHERE user_id = NEW.user_id;
    END IF;
  END IF;
  RETURN NEW;
  \<close>
\<close>

definition approved_from_pending :: "transactions_row \<Rightarrow> transactions_row \<Rightarrow> bool" where
  "approved_from_pending NEW OLD =
     is_true (sql_and (sql_eq (t_status NEW) (Some approved)) (sql_eq (t_status OLD) (Some pending)))"

definition update_account_balance ::
  "transactions_row \<Rightarrow> transactions_row \<Rightarrow> uuid option \<Rightarrow> timestamptz \<Rightarrow> db \<Rightarrow> error + db"
where
  "update_account_balance NEW OLD auth_uid now d =
     (if approved_from_pending NEW OLD then
        (if t_type NEW = payment then
           accounts_update_balance (t_user_id NEW) (t_amount NEW) auth_uid now d
         else if t_type NEW \<in> {fee, fine} then
           accounts_update_balance (t_user_id NEW) (- t_amount NEW) auth_uid now d
         else Inr d)
      else Inr d)"

section \<open>The statements on transactions\<close>

text \<open>
  The row triggers of \<^verbatim>\<open>transactions\<close> on UPDATE, for each updated row in turn.
  Triggers of one event fire in the order of their names: \<^verbatim>\<open>log_transactions_trigger\<close>
  first, then \<^verbatim>\<open>update_balance_trigger\<close>, which is queued only
  \<^verbatim>\<open>WHEN (NEW.status = 'approved' AND OLD.status = 'pending')\<close>.
\<close>

fun transactions_after_update ::
  "(transactions_row \<times> transactions_row) list \<Rightarrow> uuid option \<Rightarrow> timestamptz \<Rightarrow> db \<Rightarrow> error + db"
where
  "transactions_after_update [] auth_uid now d = Inr d"
| "transactions_after_update ((OLD, NEW) # rest) auth_uid now d =
     (case log_activity ''transactions'' UPDATE (Some (transactions_json NEW)) (Some (transactions_json OLD)) auth_uid now d of
        Inl e \<Rightarrow> Inl e
      | Inr d1 \<Rightarrow>
          (case (if approved_from_pending NEW OLD
                 then update_account_balance NEW OLD auth_uid now d1
                 else Inr d1) of
             Inl e \<Rightarrow> Inl e
           | Inr d2 \<Rightarrow> transactions_after_update rest auth_uid now d2))"

text \<open>
  \<^verbatim>\<open>supabase.from('transactions').update({ status: newStatus }).eq('id', transactionId)\<close>
  of \<^verbatim>\<open>handleStatusChange\<close>, run with the caller's \<^verbatim>\<open>auth.uid()\<close>. Rows that the
  \<^verbatim>\<open>USING\<close> expression of the UPDATE policy rejects are not visible to the statement: it
  then updates no row and raises nothing. The statement assigns \<^verbatim>\<open>status\<close> only.
\<close>

definition set_status :: "uuid \<Rightarrow> transaction_status \<Rightarrow> transactions_row \<Rightarrow> transactions_row" where
  "set_status transactionId newStatus t =
     (if t_id t = transactionId then t\<lparr>t_status := Some newStatus\<rparr> else t)"

definition handleStatusChange ::
  "uuid option \<Rightarrow> uuid \<Rightarrow> transaction_status \<Rightarrow> timestamptz \<Rightarrow> db \<Rightarrow> error + db"
where
  "handleStatusChange auth_uid transactionId newStatus now d =
     (if \<not> Admins_and_staff_can_approve_transactions auth_uid d then Inr d
      else
        let olds = filter (\<lambda>t. t_id t = transactionId) (transactions d) in
        transactions_after_update
          (map (\<lambda>t. (t, set_status transactionId newStatus t)) olds)
          auth_uid now
          (d\<lparr>transactions := map (set_status transactionId newStatus) (transactions d)\<rparr>))"

text \<open>
  The INSERT of one row into \<^verbatim>\<open>transactions\<close>: the amount must fit the column, the
  policy's \<^verbatim>\<open>WITH CHECK\<close> must hold of the new row, then \<^verbatim>\<open>positive_amount\<close>, the
  primary key and the reference to \<^verbatim>\<open>users\<close>; \<^verbatim>\<open>log_transactions_trigger\<close> fires
  after the row is stored.
\<close>

definition transactions_insert :: "uuid option \<Rightarrow> transactions_row \<Rightarrow> timestamptz \<Rightarrow> db \<Rightarrow> error + db" where
  "transactions_insert auth_uid NEW now d =
     (if \<not> fits_decimal_10_2 (t_amount NEW) then Inl numeric_value_out_of_range
      else if \<not> Users_can_create_their_own_transactions auth_uid NEW then Inl insufficient_privilege
      else if \<not> positive_amount NEW then Inl (check_violation ''positive_amount'')
      else if t_id NEW \<in> set (map t_id (transactions d)) then Inl (unique_violation ''transactions_pkey'')
      else if \<not> references_users d (t_user_id NEW) then Inl (foreign_key_violation ''transactions_user_id_fkey'')
      else log_activity ''transactions'' INSERT (Some (transactions_json NEW)) None auth_uid now
             (d\<lparr>transactions := transactions d @ [NEW]\<rparr>))"

text \<open>
  \<^verbatim>\<open>handleNewTransaction\<close>: the signed-in user inserts a row of their own with
  \<^verbatim>\<open>status: 'pending'\<close>. The amount is the value of the form field as the column
  stores it; \<open>new_id\<close> is the value of \<^verbatim>\<open>gen_random_uuid()\<close>.
\<close>

definition handleNewTransaction ::
  "uuid \<Rightarrow> uuid \<Rightarrow> transaction_type \<Rightarrow> decimal_10_2 \<Rightarrow> string \<Rightarrow> timestamptz \<Rightarrow> db \<Rightarrow> error + db"
where
  "handleNewTransaction user new_id type amount description now d =
     transactions_insert (Some user)
       \<lparr>t_id = new_id, t_user_id = user, t_type = type, t_amount = amount,
        t_description = description, t_status = Some pending, t_approved_by = None,
        t_created_at = Some now\<rparr>
       now d"

text \<open>The INSERT of a row into \<^verbatim>\<open>users\<close>, with the table's check and key.\<close>

definition users_insert :: "users_row \<Rightarrow> db \<Rightarrow> error + db" where
  "users_insert NEW d =
     (if \<not> student_id_required NEW then Inl (check_violation ''student_id_required'')
      else if u_id NEW \<in> set (map u_id (users d)) then Inl (unique_violation ''users_pkey'')
      else Inr (d\<lparr>users := users d @ [NEW]\<rparr>))"

section \<open>Reading the ledger\<close>


text \<open>The list of the statuses of the rows with a given id.\<close>

definition transaction_status_of :: "db \<Rightarrow> uuid \<Rightarrow> transaction_status option list" where
  "transaction_status_of d transactionId =
     map t_status (filter (\<lambda>t. t_id t = transactionId) (transactions d))"

text \<open>A statement that raises is rolled back: the state stays as it was.\<close>

definition commit :: "db \<Rightarrow> error + db \<Rightarrow> db" where
  "commit d r = (case r of Inl e \<Rightarrow> d | Inr d' \<Rightarrow> d')"

section \<open>Sequences of operations\<close>

text \<open>
  The two statements the front end issues, as operations on the state; a sequence runs
  them in turn, each one committed or rolled back.
\<close>

datatype operation =
    NewTransaction uuid uuid transaction_type decimal_10_2 string timestamptz
  | StatusChange "uuid option" uuid transaction_status timestamptz

fun exec :: "operation \<Rightarrow> db \<Rightarrow> error + db" where
  "exec (NewTransaction user new_id type amount description now) d =
     handleNewTransaction user new_id type amount description now d"
| "exec (StatusChange auth_uid transactionId newStatus now) d =
     handleStatusChange auth_uid transactionId newStatus now d"

fun run :: "operation list \<Rightarrow> db \<Rightarrow> db" where
  "run [] d = d"
| "run (op # ops) d = run ops (commit d (exec op d))"

text \<open>Every account has a balance, and it is not negative.\<close>

definition balances_nonneg :: "db \<Rightarrow> bool" where
  "balances_nonneg d =
     list_all (\<lambda>a. case a_balance a of None \<Rightarrow> False | Some b \<Rightarrow> 0 \<le> b) (accounts d)"

section \<open>Notions used in the statements\<close>

text \<open>The row an account becomes under the UPDATE of its owner's balance.\<close>

definition credited :: "uuid \<Rightarrow> int \<Rightarrow> timestamptz \<Rightarrow> accounts_row \<Rightarrow> accounts_row" where
  "credited uid delta now a =
     (if a_user_id a = uid
      then a\<lparr>a_balance := map_option (\<lambda>v. v + delta) (a_balance a), a_last_updated := Some now\<rparr>
      else a)"

text \<open>The row that \<^verbatim>\<open>log_activity\<close> stores.\<close>

definition log_entry :: "string \<Rightarrow> tg_op \<Rightarrow> row_json option \<Rightarrow> row_json option \<Rightarrow> uuid \<Rightarrow> timestamptz \<Rightarrow> activity_logs_row" where
  "log_entry TG_TABLE_NAME TG_OP NEW OLD uid now =
     \<lparr>l_user_id = uid,
      l_action = TG_TABLE_NAME @ ''_'' @ tg_op_text TG_OP,
      l_details = \<lparr>d_table = TG_TABLE_NAME,
                   d_operation = tg_op_text TG_OP,
                   d_record_id = COALESCE (map_option row_id NEW) (map_option row_id OLD),
                   d_new_data = NEW,
                   d_old_data = OLD\<rparr>,
      l_created_at = Some now\<rparr>"

text \<open>The change of balance that \<^verbatim>\<open>update_account_balance\<close> applies for a transaction.\<close>

definition signed_amount :: "transactions_row \<Rightarrow> int" where
  "signed_amount t = (case t_type t of payment \<Rightarrow> t_amount t | fee \<Rightarrow> - t_amount t | fine \<Rightarrow> - t_amount t)"

text \<open>The before and after snapshots of a list of audit records.\<close>

definition snapshots :: "activity_logs_row list \<Rightarrow> (row_json option \<times> row_json option) list" where
  "snapshots es = map (\<lambda>e. (d_old_data (l_details e), d_new_data (l_details e))) es"

section \<open>An example ledger\<close>

text \<open>
  An administrator, a member of staff and two students. The student 3 has an account
  holding 50.00, the student 4 has none. Transaction 14 is already approved, the
  others are pending.
\<close>

definition ex_db :: db where
  "ex_db =
     \<lparr>users =
        [\<lparr>u_id = 1, u_role = admin, u_full_name = ''Ama'', u_student_id = None, u_department = None, u_created_at = Some 0\<rparr>,
         \<lparr>u_id = 2, u_role = staff, u_full_name = ''Kofi'', u_student_id = None, u_department = None, u_created_at = Some 0\<rparr>,
         \<lparr>u_id = 3, u_role = student, u_full_name = ''Esi'', u_student_id = Some ''S3'', u_department = None, u_created_at = Some 0\<rparr>,
         \<lparr>u_id = 4, u_role = student, u_full_name = ''Yaw'', u_student_id = Some ''S4'', u_department = None, u_created_at = Some 0\<rparr>],
      transactions =
        [\<lparr>t_id = 10, t_user_id = 3, t_type = payment, t_amount = 10000, t_description = ''tuition'', t_status = Some pending, t_approved_by = None, t_created_at = Some 1\<rparr>,
         \<lparr>t_id = 11, t_user_id = 3, t_type = fee, t_amount = 3000, t_description = ''library'', t_status = Some pending, t_approved_by = None, t_created_at = Some 2\<rparr>,
         \<lparr>t_id = 12, t_user_id = 3, t_type = fine, t_amount = 9000, t_description = ''late'', t_status = Some pending, t_approved_by = None, t_created_at = Some 3\<rparr>,
         \<lparr>t_id = 13, t_user_id = 4, t_type = payment, t_amount = 2500, t_description = ''hostel'', t_status = Some pending, t_approved_by = None, t_created_at = Some 4\<rparr>,
         \<lparr>t_id = 14, t_user_id = 3, t_type = payment, t_amount = 700, t_description = ''lab'', t_status = Some approved, t_approved_by = None, t_created_at = Some 5\<rparr>],
      accounts =
        [\<lparr>a_id = 20, a_user_id = 3, a_balance = Some 5000, a_last_updated = Some 0, a_created_at = Some 0\<rparr>,
         \<lparr>a_id = 21, a_user_id = 1, a_balance = Some 0, a_last_updated = Some 0, a_created_at = Some 0\<rparr>],
      activity_logs = []\<rparr>"

text \<open>Two new rows for \<^verbatim>\<open>users\<close>, and a sequence of operations on the example ledger.\<close>

definition ex_admin_with_student_id :: users_row where
  "ex_admin_with_student_id =
     \<lparr>u_id = 5, u_role = admin, u_full_name = ''Abena'', u_student_id = Some ''S5'',
      u_department = None, u_created_at = Some 0\<rparr>"

definition ex_student :: users_row where
  "ex_student =
     \<lparr>u_id = 6, u_role = student, u_full_name = ''Kwame'', u_student_id = Some ''S6'',
      u_department = None, u_created_at = Some 0\<rparr>"

definition ex_operations :: "operation list" where
  "ex_operations =
     [NewTransaction 3 15 fee 100 ''printing'' 6,
      StatusChange (Some 1) 12 approved 7,
      StatusChange (Some 1) 10 approved 8,
      StatusChange (Some 2) 11 rejected 9,
      StatusChange (Some 2) 15 approved 10]"

section \<open>Properties of the statements\<close>

lemma log_activity_Inr:
  assumes "log_activity tbl op NEW OLD auth_uid now d = Inr d'"
  shows "\<exists>uid. COALESCE (map_option row_user_id NEW) auth_uid = Some uid \<and> references_users d uid \<and>
           d' = d\<lparr>activity_logs := activity_logs d @ [log_entry tbl op NEW OLD uid now]\<rparr>"
  using assms by (auto simp: log_activity_def log_entry_def split: option.splits if_splits)

lemma log_activity_ok:
  assumes "references_users d (row_user_id r)"
  shows "log_activity tbl op (Some r) OLD auth_uid now d =
           Inr (d\<lparr>activity_logs := activity_logs d @ [log_entry tbl op (Some r) OLD (row_user_id r) now]\<rparr>)"
  using assms by (simp add: log_activity_def log_entry_def COALESCE_def)

lemma references_users_cong: "users d' = users d \<Longrightarrow> references_users d' uid = references_users d uid"
  by (simp add: references_users_def)

lemma accounts_set_balance_Inr:
  assumes "accounts_set_balance delta now a = Inr a'"
  shows "a' = a\<lparr>a_balance := map_option (\<lambda>v. v + delta) (a_balance a), a_last_updated := Some now\<rparr>"
    and "valid_balance a'"
  using assms by (auto simp: accounts_set_balance_def Let_def split: if_splits)

lemma accounts_update_rows_Inr:
  "accounts_update_rows uid delta now rows = Inr rows' \<Longrightarrow> rows' = map (credited uid delta now) rows"
proof (induction rows arbitrary: rows')
  case Nil
  then show ?case by simp
next
  case (Cons a rest)
  show ?case
  proof (cases "a_user_id a = uid")
    case True
    with Cons.prems obtain a' rest' where
      a': "accounts_set_balance delta now a = Inr a'" and
      r': "accounts_update_rows uid delta now rest = Inr rest'" and
      eq: "rows' = a' # rest'"
      by (auto split: sum.splits)
    from accounts_set_balance_Inr(1)[OF a'] True have "a' = credited uid delta now a"
      by (simp add: credited_def)
    with Cons.IH[OF r'] eq show ?thesis by simp
  next
    case False
    with Cons.prems obtain rest' where
      r': "accounts_update_rows uid delta now rest = Inr rest'" and
      eq: "rows' = a # rest'"
      by (auto split: sum.splits)
    with Cons.IH[OF r'] False show ?thesis by (simp add: credited_def)
  qed
qed

lemma accounts_update_rows_valid:
  "accounts_update_rows uid delta now rows = Inr rows' \<Longrightarrow> a' \<in> set rows' \<Longrightarrow>
     a' \<in> set rows \<or> (valid_balance a' \<and> (\<exists>a\<in>set rows. a' = credited uid delta now a \<and> a_user_id a = uid))"
proof (induction rows arbitrary: rows')
  case Nil
  then show ?case by simp
next
  case (Cons a rest)
  show ?case
  proof (cases "a_user_id a = uid")
    case True
    with Cons.prems(1) obtain b rest' where
      b: "accounts_set_balance delta now a = Inr b" and
      r': "accounts_update_rows uid delta now rest = Inr rest'" and
      eq: "rows' = b # rest'"
      by (auto split: sum.splits)
    from accounts_set_balance_Inr[OF b] True have bb: "b = credited uid delta now a" "valid_balance b"
      by (simp_all add: credited_def)
    from Cons.prems(2) eq have "a' = b \<or> a' \<in> set rest'" by auto
    then show ?thesis
    proof
      assume "a' = b"
      with bb True show ?thesis by auto
    next
      assume "a' \<in> set rest'"
      from Cons.IH[OF r' this] show ?thesis by auto
    qed
  next
    case False
    with Cons.prems(1) obtain rest' where
      r': "accounts_update_rows uid delta now rest = Inr rest'" and
      eq: "rows' = a # rest'"
      by (auto split: sum.splits)
    from Cons.prems(2) eq have "a' = a \<or> a' \<in> set rest'" by auto
    then show ?thesis
    proof
      assume "a' = a"
      then show ?thesis by simp
    next
      assume "a' \<in> set rest'"
      from Cons.IH[OF r' this] show ?thesis by auto
    qed
  qed
qed


lemma log_accounts_trigger_Inr:
  "log_accounts_trigger ps auth_uid now d = Inr d' \<Longrightarrow>
     d' = d\<lparr>activity_logs := activity_logs d @
            map (\<lambda>(OLD, NEW). log_entry ''accounts'' UPDATE (Some (accounts_json NEW)) (Some (accounts_json OLD)) (a_user_id NEW) now) ps\<rparr>
     \<and> (\<forall>(OLD, NEW)\<in>set ps. references_users d (a_user_id NEW))"
proof (induction ps arbitrary: d)
  case Nil
  then show ?case by simp
next
  case (Cons p ps)
  obtain OLD NEW where p: "p = (OLD, NEW)" by (cases p)
  from Cons.prems p obtain d1 where
    l: "log_activity ''accounts'' UPDATE (Some (accounts_json NEW)) (Some (accounts_json OLD)) auth_uid now d = Inr d1" and
    r: "log_accounts_trigger ps auth_uid now d1 = Inr d'"
    by (auto split: sum.splits)
  from log_activity_Inr[OF l] have
    d1: "d1 = d\<lparr>activity_logs := activity_logs d @ [log_entry ''accounts'' UPDATE (Some (accounts_json NEW)) (Some (accounts_json OLD)) (a_user_id NEW) now]\<rparr>"
    and ref: "references_users d (a_user_id NEW)"
    by (auto simp: COALESCE_def)
  from Cons.IH[OF r] d1 ref p show ?case
    by (auto simp: references_users_def)
qed


lemma zip_filter_old:
  "filter (\<lambda>(OLD, NEW). P OLD) (zip xs (map f xs)) = map (\<lambda>a. (a, f a)) (filter P xs)"
  by (induction xs) auto

lemma credited_user_id [simp]: "a_user_id (credited uid delta now a) = a_user_id a"
  by (simp add: credited_def)

lemma accounts_update_balance_Inr:
  assumes "accounts_update_balance uid delta auth_uid now d = Inr d'"
  shows "d' = d\<lparr>accounts := map (credited uid delta now) (accounts d),
                activity_logs := activity_logs d @
                  map (\<lambda>a. log_entry ''accounts'' UPDATE (Some (accounts_json (credited uid delta now a)))
                               (Some (accounts_json a)) uid now)
                      (filter (\<lambda>a. a_user_id a = uid) (accounts d))\<rparr>"
    and "\<forall>a'\<in>set (accounts d'). a' \<in> set (accounts d) \<or> (valid_balance a' \<and> (\<exists>a\<in>set (accounts d). a' = credited uid delta now a \<and> a_user_id a = uid))"
proof -
  from assms obtain rows' where
    r: "accounts_update_rows uid delta now (accounts d) = Inr rows'" and
    l: "log_accounts_trigger (filter (\<lambda>(OLD, NEW). a_user_id OLD = uid) (zip (accounts d) rows'))
          auth_uid now (d\<lparr>accounts := rows'\<rparr>) = Inr d'"
    by (auto simp: accounts_update_balance_def split: sum.splits)
  have rows': "rows' = map (credited uid delta now) (accounts d)"
    by (rule accounts_update_rows_Inr[OF r])
  have ps: "filter (\<lambda>(OLD, NEW). a_user_id OLD = uid) (zip (accounts d) rows')
              = map (\<lambda>a. (a, credited uid delta now a)) (filter (\<lambda>a. a_user_id a = uid) (accounts d))"
    unfolding rows' by (rule zip_filter_old)
  from log_accounts_trigger_Inr[OF l] have
    "d' = d\<lparr>accounts := rows'\<rparr>\<lparr>activity_logs := activity_logs (d\<lparr>accounts := rows'\<rparr>) @
            map (\<lambda>(OLD, NEW). log_entry ''accounts'' UPDATE (Some (accounts_json NEW)) (Some (accounts_json OLD)) (a_user_id NEW) now)
              (filter (\<lambda>(OLD, NEW). a_user_id OLD = uid) (zip (accounts d) rows'))\<rparr>"
    by blast
  then show d': "d' = d\<lparr>accounts := map (credited uid delta now) (accounts d),
                activity_logs := activity_logs d @
                  map (\<lambda>a. log_entry ''accounts'' UPDATE (Some (accounts_json (credited uid delta now a)))
                               (Some (accounts_json a)) uid now)
                      (filter (\<lambda>a. a_user_id a = uid) (accounts d))\<rparr>"
    unfolding ps by (simp add: rows' comp_def cong: map_cong)
  have "accounts d' = rows'" using d' rows' by simp
  with accounts_update_rows_valid[OF r]
  show "\<forall>a'\<in>set (accounts d'). a' \<in> set (accounts d) \<or> (valid_balance a' \<and> (\<exists>a\<in>set (accounts d). a' = credited uid delta now a \<and> a_user_id a = uid))"
    by blast
qed


lemma update_account_balance_approved:
  assumes "approved_from_pending NEW OLD"
  shows "update_account_balance NEW OLD auth_uid now d =
           accounts_update_balance (t_user_id NEW) (signed_amount NEW) auth_uid now d"
  using assms by (cases "t_type NEW") (simp_all add: update_account_balance_def signed_amount_def)

lemma distinct_filter_single:
  "distinct (map f xs) \<Longrightarrow> x \<in> set xs \<Longrightarrow> filter (\<lambda>y. f y = f x) xs = [x]"
proof (induction xs)
  case Nil
  then show ?case by simp
next
  case (Cons y ys)
  show ?case
  proof (cases "x = y")
    case True
    with Cons.prems have "f x \<notin> f ` set ys" by simp
    then have "\<forall>z\<in>set ys. f z \<noteq> f x" by (metis imageI)
    then have "filter (\<lambda>y. f y = f x) ys = []" by (simp add: filter_empty_conv)
    with True show ?thesis by simp
  next
    case False
    with Cons.prems have x: "x \<in> set ys" and d: "distinct (map f ys)" and "f y \<notin> f ` set ys" by auto
    then have "f y \<noteq> f x" by auto
    with Cons.IH[OF d x] show ?thesis by simp
  qed
qed

lemma transactions_after_update_frame:
  "transactions_after_update ps auth_uid now d = Inr d' \<Longrightarrow>
     users d' = users d \<and> transactions d' = transactions d \<and>
     (\<forall>(OLD, NEW)\<in>set ps. references_users d (t_user_id NEW))"
proof (induction ps arbitrary: d)
  case Nil
  then show ?case by simp
next
  case (Cons p ps)
  obtain OLD NEW where p: "p = (OLD, NEW)" by (cases p)
  from Cons.prems p obtain d1 d2 where
    l: "log_activity ''transactions'' UPDATE (Some (transactions_json NEW)) (Some (transactions_json OLD)) auth_uid now d = Inr d1" and
    u: "(if approved_from_pending NEW OLD then update_account_balance NEW OLD auth_uid now d1 else Inr d1) = Inr d2" and
    r: "transactions_after_update ps auth_uid now d2 = Inr d'"
    by (auto split: sum.splits)
  from log_activity_Inr[OF l] have d1: "users d1 = users d" "transactions d1 = transactions d"
    and ref: "references_users d (t_user_id NEW)"
    by (auto simp: COALESCE_def)
  have d2: "users d2 = users d1 \<and> transactions d2 = transactions d1"
  proof (cases "approved_from_pending NEW OLD")
    case True
    with u have "accounts_update_balance (t_user_id NEW) (signed_amount NEW) auth_uid now d1 = Inr d2"
      by (simp add: update_account_balance_approved)
    from accounts_update_balance_Inr(1)[OF this] show ?thesis by simp
  next
    case False
    with u show ?thesis by simp
  qed
  from Cons.IH[OF r] d1 d2 ref p show ?case
    by (auto simp: references_users_def)
qed

lemma transactions_after_update_no_approval:
  "\<forall>(OLD, NEW)\<in>set ps. \<not> approved_from_pending NEW OLD \<Longrightarrow>
   \<forall>(OLD, NEW)\<in>set ps. references_users d (t_user_id NEW) \<Longrightarrow>
   transactions_after_update ps auth_uid now d =
     Inr (d\<lparr>activity_logs := activity_logs d @
            map (\<lambda>(OLD, NEW). log_entry ''transactions'' UPDATE (Some (transactions_json NEW))
                   (Some (transactions_json OLD)) (t_user_id NEW) now) ps\<rparr>)"
proof (induction ps arbitrary: d)
  case Nil
  then show ?case by simp
next
  case (Cons p ps)
  obtain OLD NEW where p: "p = (OLD, NEW)" by (cases p)
  let ?d1 = "d\<lparr>activity_logs := activity_logs d @ [log_entry ''transactions'' UPDATE (Some (transactions_json NEW)) (Some (transactions_json OLD)) (t_user_id NEW) now]\<rparr>"
  from Cons.prems(2) p have "references_users d (row_user_id (transactions_json NEW))" by simp
  from log_activity_ok[OF this] have
    l: "log_activity ''transactions'' UPDATE (Some (transactions_json NEW)) (Some (transactions_json OLD)) auth_uid now d = Inr ?d1"
    by simp
  from Cons.prems(1) p have na: "\<not> approved_from_pending NEW OLD" by simp
  have "\<forall>(OLD, NEW)\<in>set ps. references_users ?d1 (t_user_id NEW)"
    using Cons.prems(2) by (auto simp: references_users_def)
  from Cons.IH[OF _ this] Cons.prems(1) have
    "transactions_after_update ps auth_uid now ?d1 =
       Inr (?d1\<lparr>activity_logs := activity_logs ?d1 @
            map (\<lambda>(OLD, NEW). log_entry ''transactions'' UPDATE (Some (transactions_json NEW))
                   (Some (transactions_json OLD)) (t_user_id NEW) now) ps\<rparr>)"
    by simp
  with l na p show ?case by simp
qed


lemma approved_from_pending_iff:
  "approved_from_pending NEW OLD \<longleftrightarrow> t_status NEW = Some approved \<and> t_status OLD = Some pending"
  by (auto simp: approved_from_pending_def is_true_def sql_and_def sql_eq_def split: option.splits)

lemma handleStatusChange_frame:
  assumes "handleStatusChange auth_uid tid s now d = Inr d'"
  shows "users d' = users d"
    and "transactions d' =
           (if Admins_and_staff_can_approve_transactions auth_uid d
            then map (set_status tid s) (transactions d) else transactions d)"
    and "Admins_and_staff_can_approve_transactions auth_uid d \<Longrightarrow>
           \<forall>t\<in>set (transactions d). t_id t = tid \<longrightarrow> references_users d (t_user_id t)"
proof -
  let ?d0 = "d\<lparr>transactions := map (set_status tid s) (transactions d)\<rparr>"
  let ?ps = "map (\<lambda>t. (t, set_status tid s t)) (filter (\<lambda>t. t_id t = tid) (transactions d))"
  show "users d' = users d"
  proof (cases "Admins_and_staff_can_approve_transactions auth_uid d")
    case True
    with assms have "transactions_after_update ?ps auth_uid now ?d0 = Inr d'"
      by (simp add: handleStatusChange_def)
    from transactions_after_update_frame[OF this] show ?thesis by simp
  next
    case False
    with assms show ?thesis by (simp add: handleStatusChange_def)
  qed
  show "transactions d' =
           (if Admins_and_staff_can_approve_transactions auth_uid d
            then map (set_status tid s) (transactions d) else transactions d)"
  proof (cases "Admins_and_staff_can_approve_transactions auth_uid d")
    case True
    with assms have "transactions_after_update ?ps auth_uid now ?d0 = Inr d'"
      by (simp add: handleStatusChange_def)
    from transactions_after_update_frame[OF this] True show ?thesis by simp
  next
    case False
    with assms show ?thesis by (simp add: handleStatusChange_def)
  qed
  show "\<forall>t\<in>set (transactions d). t_id t = tid \<longrightarrow> references_users d (t_user_id t)"
    if priv: "Admins_and_staff_can_approve_transactions auth_uid d"
  proof -
    from priv assms have "transactions_after_update ?ps auth_uid now ?d0 = Inr d'"
      by (simp add: handleStatusChange_def)
    from transactions_after_update_frame[OF this]
    have "\<forall>(OLD, NEW)\<in>set ?ps. references_users ?d0 (t_user_id NEW)" by blast
    then show ?thesis
      by (auto simp: references_users_def set_status_def)
  qed
qed

lemma handleStatusChange_no_approval:
  assumes na: "\<forall>t\<in>set (transactions d). t_id t = tid \<longrightarrow> \<not> (s = approved \<and> t_status t = Some pending)"
    and refs: "\<forall>t\<in>set (transactions d). t_id t = tid \<longrightarrow> references_users d (t_user_id t)"
  shows "\<exists>d'. handleStatusChange auth_uid tid s now d = Inr d' \<and> accounts d' = accounts d \<and> users d' = users d \<and>
           transactions d' =
             (if Admins_and_staff_can_approve_transactions auth_uid d
              then map (set_status tid s) (transactions d) else transactions d)"
proof (cases "Admins_and_staff_can_approve_transactions auth_uid d")
  case False
  then show ?thesis by (simp add: handleStatusChange_def)
next
  case True
  let ?d0 = "d\<lparr>transactions := map (set_status tid s) (transactions d)\<rparr>"
  let ?ps = "map (\<lambda>t. (t, set_status tid s t)) (filter (\<lambda>t. t_id t = tid) (transactions d))"
  have 1: "\<forall>(OLD, NEW)\<in>set ?ps. \<not> approved_from_pending NEW OLD"
    using na by (auto simp: approved_from_pending_iff set_status_def)
  have 2: "\<forall>(OLD, NEW)\<in>set ?ps. references_users ?d0 (t_user_id NEW)"
    using refs by (auto simp: references_users_def set_status_def)
  from transactions_after_update_no_approval[OF 1 2, of auth_uid now] True
  show ?thesis by (simp add: handleStatusChange_def)
qed


lemma set_status_id [simp]: "t_id (set_status tid s t) = t_id t"
  by (simp add: set_status_def)

lemma set_status_user_id [simp]: "t_user_id (set_status tid s t) = t_user_id t"
  by (simp add: set_status_def)

lemma set_status_status: "t_id t = tid \<Longrightarrow> t_status (set_status tid s t) = Some s"
  by (simp add: set_status_def)

lemma signed_amount_set_status [simp]: "signed_amount (t\<lparr>t_status := s\<rparr>) = signed_amount t"
  by (cases "t_type t") (simp_all add: signed_amount_def)

lemma handleStatusChange_single:
  assumes priv: "Admins_and_staff_can_approve_transactions auth_uid d"
    and pkey: "transactions_pkey d"
    and t: "t \<in> set (transactions d)" "t_id t = tid"
    and ref: "references_users d (t_user_id t)"
  shows "handleStatusChange auth_uid tid s now d =
     (let d1 = d\<lparr>transactions := map (set_status tid s) (transactions d),
                 activity_logs := activity_logs d @
                   [log_entry ''transactions'' UPDATE (Some (transactions_json (t\<lparr>t_status := Some s\<rparr>)))
                      (Some (transactions_json t)) (t_user_id t) now]\<rparr>
      in if s = approved \<and> t_status t = Some pending
         then accounts_update_balance (t_user_id t) (signed_amount t) auth_uid now d1
         else Inr d1)"
proof -
  let ?d0 = "d\<lparr>transactions := map (set_status tid s) (transactions d)\<rparr>"
  let ?t' = "t\<lparr>t_status := Some s\<rparr>"
  from pkey t have f: "filter (\<lambda>y. t_id y = tid) (transactions d) = [t]"
    using distinct_filter_single[of t_id "transactions d" t] by (simp add: transactions_pkey_def)
  have st: "set_status tid s t = ?t'" using t by (simp add: set_status_def)
  have "references_users ?d0 (row_user_id (transactions_json ?t'))"
    using ref by (simp add: references_users_def)
  from log_activity_ok[OF this, of "''transactions''" UPDATE "Some (transactions_json t)" auth_uid now]
  have l: "log_activity ''transactions'' UPDATE (Some (transactions_json ?t')) (Some (transactions_json t)) auth_uid now ?d0
             = Inr (?d0\<lparr>activity_logs := activity_logs d @
                   [log_entry ''transactions'' UPDATE (Some (transactions_json ?t'))
                      (Some (transactions_json t)) (t_user_id t) now]\<rparr>)"
    by simp
  have afp: "approved_from_pending ?t' t \<longleftrightarrow> s = approved \<and> t_status t = Some pending"
    by (simp add: approved_from_pending_iff)
  have "handleStatusChange auth_uid tid s now d = transactions_after_update [(t, ?t')] auth_uid now ?d0"
    using priv by (simp add: handleStatusChange_def f st)
  also have "\<dots> =
     (let d1 = ?d0\<lparr>activity_logs := activity_logs d @
                   [log_entry ''transactions'' UPDATE (Some (transactions_json ?t'))
                      (Some (transactions_json t)) (t_user_id t) now]\<rparr>
      in if s = approved \<and> t_status t = Some pending
         then accounts_update_balance (t_user_id t) (signed_amount t) auth_uid now d1
         else Inr d1)"
  proof (cases "approved_from_pending ?t' t")
    case True
    with afp l update_account_balance_approved[OF True] show ?thesis
      by (simp add: Let_def split: sum.split)
  next
    case False
    with afp l show ?thesis by (auto simp: Let_def)
  qed
  finally show ?thesis by simp
qed

lemma ex_db_admin: "Admins_and_staff_can_approve_transactions (Some 1) ex_db"
  by (simp add: Admins_and_staff_can_approve_transactions_def ex_db_def is_true_def sql_eq_def)


lemma ex_db_pkey: "transactions_pkey ex_db"
  by code_simp




lemma handleStatusChange_not_priv:
  "\<not> Admins_and_staff_can_approve_transactions auth_uid d \<Longrightarrow> handleStatusChange auth_uid tid s now d = Inr d"
  by (simp add: handleStatusChange_def)





lemma handleStatusChange_accounts:
  assumes ok: "handleStatusChange auth_uid tid s now d = Inr d'"
    and pkey: "transactions_pkey d"
    and t: "t \<in> set (transactions d)" "t_id t = tid"
  shows "users d' = users d \<and>
         (accounts d' = accounts d \<or>
          accounts d' = map (credited (t_user_id t) (signed_amount t) now) (accounts d))"
proof (cases "Admins_and_staff_can_approve_transactions auth_uid d")
  case False
  from handleStatusChange_not_priv[OF False, of tid s now] ok show ?thesis by simp
next
  case True
  let ?d1 = "d\<lparr>transactions := map (set_status tid s) (transactions d),
                 activity_logs := activity_logs d @
                   [log_entry ''transactions'' UPDATE (Some (transactions_json (t\<lparr>t_status := Some s\<rparr>)))
                      (Some (transactions_json t)) (t_user_id t) now]\<rparr>"
  from handleStatusChange_frame(3)[OF ok True] t have ref: "references_users d (t_user_id t)" by blast
  note single = handleStatusChange_single[OF True pkey t ref, of s now]
  show ?thesis
  proof (cases "s = approved \<and> t_status t = Some pending")
    case True
    with single ok have "accounts_update_balance (t_user_id t) (signed_amount t) auth_uid now ?d1 = Inr d'"
      by (simp add: Let_def)
    from accounts_update_balance_Inr(1)[OF this] show ?thesis by simp
  next
    case False
    with single ok have "d' = ?d1" by (auto simp: Let_def)
    then show ?thesis by simp
  qed
qed

lemma filter_changed:
  "filter (\<lambda>(a, a'). a' \<noteq> a) (zip xs (map g xs)) = map (\<lambda>a. (a, g a)) (filter (\<lambda>a. g a \<noteq> a) xs)"
  by (induction xs) auto

lemma filter_unchanged: "filter (\<lambda>(a, a'). a' \<noteq> a) (zip xs xs) = []"
  by (induction xs) auto

lemma distinct_filter_le_1:
  "distinct (map f xs) \<Longrightarrow> length (filter (\<lambda>a. f a = k) xs) \<le> 1"
proof (induction xs)
  case Nil
  then show ?case by simp
next
  case (Cons y ys)
  show ?case
  proof (cases "f y = k")
    case True
    with Cons.prems have "k \<notin> f ` set ys" by simp
    then have "\<forall>z\<in>set ys. f z \<noteq> k" by (metis imageI)
    then have "filter (\<lambda>a. f a = k) ys = []" by (simp add: filter_empty_conv)
    with True show ?thesis by simp
  next
    case False
    with Cons show ?thesis by simp
  qed
qed

lemma length_filter_mono:
  "\<forall>x\<in>set xs. P x \<longrightarrow> Q x \<Longrightarrow> length (filter P xs) \<le> length (filter Q xs)"
  by (induction xs) auto

lemma credited_other: "a_user_id a \<noteq> uid \<Longrightarrow> credited uid delta now a = a"
  by (simp add: credited_def)

lemma credited_fields:
  "credited uid delta now a =
     a\<lparr>a_balance := a_balance (credited uid delta now a),
       a_last_updated := a_last_updated (credited uid delta now a)\<rparr>"
  by (simp add: credited_def)

lemma ex_db_ukey: "accounts_user_id_key ex_db"
  by code_simp

lemma credited_nonneg:
  assumes "case a_balance a of None \<Rightarrow> False | Some b \<Rightarrow> 0 \<le> b"
    and "valid_balance (credited uid delta now a)"
  shows "case a_balance (credited uid delta now a) of None \<Rightarrow> False | Some b \<Rightarrow> 0 \<le> b"
  using assms
  by (cases "a_balance a")
     (auto simp: credited_def valid_balance_def check_passes_def sql_ge_def split: if_splits)

lemma accounts_update_balance_nonneg:
  assumes ok: "accounts_update_balance uid delta auth_uid now d = Inr d'"
    and inv: "balances_nonneg d"
  shows "balances_nonneg d'"
  unfolding balances_nonneg_def list_all_iff
proof
  fix a' assume "a' \<in> set (accounts d')"
  with accounts_update_balance_Inr(2)[OF ok]
  have "a' \<in> set (accounts d) \<or>
        (valid_balance a' \<and> (\<exists>a\<in>set (accounts d). a' = credited uid delta now a \<and> a_user_id a = uid))"
    by blast
  then show "case a_balance a' of None \<Rightarrow> False | Some b \<Rightarrow> 0 \<le> b"
  proof
    assume "a' \<in> set (accounts d)"
    with inv show ?thesis by (simp add: balances_nonneg_def list_all_iff)
  next
    assume "valid_balance a' \<and> (\<exists>a\<in>set (accounts d). a' = credited uid delta now a \<and> a_user_id a = uid)"
    then obtain a where v: "valid_balance (credited uid delta now a)" and a: "a \<in> set (accounts d)"
      and e: "a' = credited uid delta now a"
      by blast
    from inv a have "case a_balance a of None \<Rightarrow> False | Some b \<Rightarrow> 0 \<le> b"
      by (simp add: balances_nonneg_def list_all_iff)
    from credited_nonneg[OF this v] e show ?thesis by simp
  qed
qed

lemma log_activity_tables:
  assumes "log_activity tbl op NEW OLD auth_uid now d = Inr d'"
  shows "users d' = users d" "transactions d' = transactions d" "accounts d' = accounts d"
  using assms by (auto simp: log_activity_def split: option.splits if_splits)

lemma transactions_after_update_nonneg:
  "transactions_after_update ps auth_uid now d = Inr d' \<Longrightarrow> balances_nonneg d \<Longrightarrow> balances_nonneg d'"
proof (induction ps arbitrary: d)
  case Nil
  then show ?case by simp
next
  case (Cons p ps)
  obtain OLD NEW where p: "p = (OLD, NEW)" by (cases p)
  from Cons.prems(1) p obtain d1 d2 where
    l: "log_activity ''transactions'' UPDATE (Some (transactions_json NEW)) (Some (transactions_json OLD)) auth_uid now d = Inr d1" and
    u: "(if approved_from_pending NEW OLD then update_account_balance NEW OLD auth_uid now d1 else Inr d1) = Inr d2" and
    r: "transactions_after_update ps auth_uid now d2 = Inr d'"
    by (auto split: sum.splits)
  from log_activity_tables(3)[OF l] have "accounts d1 = accounts d" .
  with Cons.prems(2) have i1: "balances_nonneg d1" by (simp add: balances_nonneg_def)
  have i2: "balances_nonneg d2"
  proof (cases "approved_from_pending NEW OLD")
    case True
    with u have "accounts_update_balance (t_user_id NEW) (signed_amount NEW) auth_uid now d1 = Inr d2"
      by (simp add: update_account_balance_approved)
    from accounts_update_balance_nonneg[OF this i1] show ?thesis .
  next
    case False
    with u i1 show ?thesis by simp
  qed
  from Cons.IH[OF r i2] show ?case .
qed

lemma handleStatusChange_nonneg:
  assumes "handleStatusChange auth_uid tid s now d = Inr d'" and "balances_nonneg d"
  shows "balances_nonneg d'"
proof (cases "Admins_and_staff_can_approve_transactions auth_uid d")
  case False
  from handleStatusChange_not_priv[OF False, of tid s now] assms show ?thesis by simp
next
  case True
  let ?d0 = "d\<lparr>transactions := map (set_status tid s) (transactions d)\<rparr>"
  let ?ps = "map (\<lambda>t. (t, set_status tid s t)) (filter (\<lambda>t. t_id t = tid) (transactions d))"
  from True assms(1) have "transactions_after_update ?ps auth_uid now ?d0 = Inr d'"
    by (simp add: handleStatusChange_def)
  moreover have "balances_nonneg ?d0" using assms(2) by (simp add: balances_nonneg_def)
  ultimately show ?thesis by (rule transactions_after_update_nonneg)
qed

lemma transactions_insert_Inr:
  assumes "transactions_insert auth_uid NEW now d = Inr d'"
  shows "d' = d\<lparr>transactions := transactions d @ [NEW],
                activity_logs := activity_logs d @
                  [log_entry ''transactions'' INSERT (Some (transactions_json NEW)) None (t_user_id NEW) now]\<rparr>"
proof -
  from assms have "log_activity ''transactions'' INSERT (Some (transactions_json NEW)) None auth_uid now
             (d\<lparr>transactions := transactions d @ [NEW]\<rparr>) = Inr d'"
    by (simp add: transactions_insert_def split: if_splits)
  from log_activity_Inr[OF this] show ?thesis by (simp add: COALESCE_def)
qed

lemma exec_nonneg:
  assumes "exec op d = Inr d'" and "balances_nonneg d"
  shows "balances_nonneg d'"
proof (cases op)
  case (NewTransaction user new_id type amount description now)
  with assms(1) have "handleNewTransaction user new_id type amount description now d = Inr d'" by simp
  then have "accounts d' = accounts d"
    unfolding handleNewTransaction_def by (drule_tac transactions_insert_Inr) simp
  with assms(2) show ?thesis by (simp add: balances_nonneg_def)
next
  case (StatusChange auth_uid tid s now)
  with assms(1) have "handleStatusChange auth_uid tid s now d = Inr d'" by simp
  from handleStatusChange_nonneg[OF this assms(2)] show ?thesis .
qed

lemma commit_exec_nonneg: "balances_nonneg d \<Longrightarrow> balances_nonneg (commit d (exec op d))"
  by (cases "exec op d") (auto simp: commit_def dest: exec_nonneg)

lemma run_nonneg: "balances_nonneg d \<Longrightarrow> balances_nonneg (run ops d)"
  by (induction ops arbitrary: d) (simp_all add: commit_exec_nonneg)




lemma snapshots_log_entry [simp]:
  "snapshots (log_entry tbl op NEW OLD uid now # es) = (OLD, NEW) # snapshots es"
  by (simp add: snapshots_def log_entry_def)

lemma snapshots_Nil [simp]: "snapshots [] = []"
  by (simp add: snapshots_def)





section \<open>The claims\<close>








text \<open>
  C4. Approving twice gives the same balances as approving once: after an approval by an
  administrator or a member of staff has gone through, a second approval of the same
  transaction (by anyone, at any time) goes through as well and leaves every account as
  the first one left it, because the row's old status is then \<open>approved\<close>, not
  \<open>pending\<close>.
\<close>

theorem approval_twice:
  assumes first: "handleStatusChange auth_uid transactionId approved now d = Inr d1"
    and priv: "Admins_and_staff_can_approve_transactions auth_uid d"
  shows "\<exists>d2. handleStatusChange auth_uid' transactionId approved now' d1 = Inr d2 \<and>
           accounts d2 = accounts d1"
proof -
  from handleStatusChange_frame[OF first] priv have
    u: "users d1 = users d" and
    tr: "transactions d1 = map (set_status transactionId approved) (transactions d)" and
    refs: "\<forall>t\<in>set (transactions d). t_id t = transactionId \<longrightarrow> references_users d (t_user_id t)"
    by simp_all
  have na: "\<forall>t\<in>set (transactions d1). t_id t = transactionId \<longrightarrow> \<not> (approved = approved \<and> t_status t = Some pending)"
  proof (intro ballI impI)
    fix t' assume "t' \<in> set (transactions d1)" and id: "t_id t' = transactionId"
    then obtain t where t': "t' = set_status transactionId approved t" by (auto simp: tr)
    with id have "t_id t = transactionId" by simp
    then have "t_status t' = Some approved" unfolding t' by (rule set_status_status)
    then show "\<not> (approved = approved \<and> t_status t' = Some pending)" by simp
  qed
  have refs1: "\<forall>t\<in>set (transactions d1). t_id t = transactionId \<longrightarrow> references_users d1 (t_user_id t)"
  proof (intro ballI impI)
    fix t' assume "t' \<in> set (transactions d1)" and id: "t_id t' = transactionId"
    then obtain t where t': "t' = set_status transactionId approved t" and t: "t \<in> set (transactions d)"
      by (auto simp: tr)
    with id have "t_id t = transactionId" by simp
    with refs t have "references_users d (t_user_id t)" by blast
    then show "references_users d1 (t_user_id t')"
      unfolding t' by (simp add: references_users_def u)
  qed
  from handleStatusChange_no_approval[OF na refs1, of auth_uid' now'] show ?thesis by blast
qed

theorem approval_twice_witness:
  "Admins_and_staff_can_approve_transactions (Some 1) ex_db \<and>
   \<not> isl (handleStatusChange (Some 1) 10 approved 7 ex_db) \<and>
   (\<exists>d2. handleStatusChange (Some 2) 10 approved 8 (projr (handleStatusChange (Some 1) 10 approved 7 ex_db)) = Inr d2 \<and>
      accounts d2 = accounts (projr (handleStatusChange (Some 1) 10 approved 7 ex_db)))"
proof -
  have ok: "\<not> isl (handleStatusChange (Some 1) 10 approved 7 ex_db)"
    by code_simp
  then have first: "handleStatusChange (Some 1) 10 approved 7 ex_db = Inr (projr (handleStatusChange (Some 1) 10 approved 7 ex_db))"
    by (cases "handleStatusChange (Some 1) 10 approved 7 ex_db") auto
  show ?thesis
    by (intro conjI) (rule ex_db_admin, rule ok, rule approval_twice[OF first ex_db_admin, of "Some 2" 8])
qed

text \<open>
  C5. For every transaction whose status goes from pending to rejected, every account
  balance is unchanged: a status change to \<open>rejected\<close> that goes through leaves the
  table of accounts as it was, whoever asks and whatever the status was before; for an
  administrator or a member of staff the rows with that id do become \<open>rejected\<close>.
\<close>

theorem rejection_leaves_balances:
  assumes "handleStatusChange auth_uid transactionId rejected now d = Inr d'"
  shows "accounts d' = accounts d \<and>
         transactions d' =
           (if Admins_and_staff_can_approve_transactions auth_uid d
            then map (set_status transactionId rejected) (transactions d) else transactions d)"
proof -
  have na: "\<forall>t\<in>set (transactions d). t_id t = transactionId \<longrightarrow> \<not> (rejected = approved \<and> t_status t = Some pending)"
    by simp
  show ?thesis
  proof (cases "Admins_and_staff_can_approve_transactions auth_uid d")
    case True
    from handleStatusChange_frame(3)[OF assms True]
    have refs: "\<forall>t\<in>set (transactions d). t_id t = transactionId \<longrightarrow> references_users d (t_user_id t)" .
    from handleStatusChange_no_approval[OF na refs, of auth_uid now] assms show ?thesis by auto
  next
    case False
    with assms show ?thesis by (simp add: handleStatusChange_def)
  qed
qed

theorem rejection_leaves_balances_witness:
  "\<not> isl (handleStatusChange (Some 1) 11 rejected 7 ex_db) \<and>
   accounts (commit ex_db (handleStatusChange (Some 1) 11 rejected 7 ex_db)) = accounts ex_db \<and>
   transaction_status_of ex_db 11 = [Some pending] \<and>
   transaction_status_of (commit ex_db (handleStatusChange (Some 1) 11 rejected 7 ex_db)) 11 = [Some rejected]"
proof -
  have ok: "\<not> isl (handleStatusChange (Some 1) 11 rejected 7 ex_db)"
    by code_simp
  then obtain d' where d': "handleStatusChange (Some 1) 11 rejected 7 ex_db = Inr d'"
    by (cases "handleStatusChange (Some 1) 11 rejected 7 ex_db") auto
  have before: "transaction_status_of ex_db 11 = [Some pending]"
    by code_simp
  have after: "map t_status (filter (\<lambda>t. t_id t = 11) (map (set_status 11 rejected) (transactions ex_db))) = [Some rejected]"
    by code_simp
  from rejection_leaves_balances[OF d'] ex_db_admin
  have "accounts d' = accounts ex_db" "transactions d' = map (set_status 11 rejected) (transactions ex_db)"
    by simp_all
  with d' ok before after show ?thesis
    by (simp add: commit_def transaction_status_of_def)
qed

text \<open>
  C6. After any sequence of operations (creations of transactions and status changes,
  each committed when it goes through and rolled back when it raises), every account
  has a balance of zero or more, when that was so before; and an operation that goes
  through never leaves a negative balance, so one that would is rejected.
\<close>

theorem balances_never_negative:
  assumes "balances_nonneg d"
  shows "balances_nonneg (run ops d) \<and> (\<forall>d'. exec op d = Inr d' \<longrightarrow> balances_nonneg d')"
proof
  show "balances_nonneg (run ops d)" using assms by (rule run_nonneg)
  show "\<forall>d'. exec op d = Inr d' \<longrightarrow> balances_nonneg d'"
    using assms by (blast intro: exec_nonneg)
qed

theorem balances_never_negative_witness:
  "balances_nonneg ex_db \<and>
   balances_nonneg (run ex_operations ex_db) \<and>
   map a_balance (accounts (run ex_operations ex_db)) = [Some 14900, Some 0] \<and>
   isl (exec (StatusChange (Some 1) 12 approved 8) ex_db) \<and>
   \<not> isl (exec (StatusChange (Some 1) 11 approved 8) ex_db) \<and>
   balances_nonneg (projr (exec (StatusChange (Some 1) 11 approved 8) ex_db))"
proof -
  have inv: "balances_nonneg ex_db" by code_simp
  have bal: "map a_balance (accounts (run ex_operations ex_db)) = [Some 14900, Some 0]"
    by code_simp
  have rej: "isl (exec (StatusChange (Some 1) 12 approved 8) ex_db)"
    by code_simp
  have acc: "\<not> isl (exec (StatusChange (Some 1) 11 approved 8) ex_db)"
    by code_simp
  then have ok: "exec (StatusChange (Some 1) 11 approved 8) ex_db
                   = Inr (projr (exec (StatusChange (Some 1) 11 approved 8) ex_db))"
    by (cases "exec (StatusChange (Some 1) 11 approved 8) ex_db") auto
  note r = balances_never_negative[OF inv, of ex_operations "StatusChange (Some 1) 11 approved 8"]
  from r[THEN conjunct2] ok
  have after: "balances_nonneg (projr (exec (StatusChange (Some 1) 11 approved 8) ex_db))"
    by blast
  show ?thesis
    by (intro conjI) (rule inv, rule r[THEN conjunct1], rule bal, rule rej, rule acc, rule after)
qed



text \<open>
  C8, as amended. Every user with the role \<open>student\<close> has a \<open>student_id\<close>: the
  table accepts a new row only if it passes \<open>student_id_required\<close>. The constraint
  says nothing about the other roles: an administrator or a member of staff may have a
  \<open>student_id\<close> or none.
\<close>

theorem students_have_student_id:
  assumes "users_insert NEW d = Inr d'"
    and "\<forall>u\<in>set (users d). u_role u = student \<longrightarrow> u_student_id u \<noteq> None"
  shows "users d' = users d @ [NEW] \<and>
         (\<forall>u\<in>set (users d'). u_role u = student \<longrightarrow> u_student_id u \<noteq> None)"
  using assms by (auto simp: users_insert_def student_id_required_def split: if_splits)

theorem students_have_student_id_witness:
  "\<not> isl (users_insert ex_student ex_db) \<and>
   users (projr (users_insert ex_student ex_db)) = users ex_db @ [ex_student] \<and>
   map u_student_id (filter (\<lambda>u. u_role u = student) (users (projr (users_insert ex_student ex_db))))
     = [Some ''S3'', Some ''S4'', Some ''S6''] \<and>
   isl (users_insert (ex_student\<lparr>u_student_id := None\<rparr>) ex_db)"
proof -
  have isr: "\<not> isl (users_insert ex_student ex_db)" by code_simp
  then have ok: "users_insert ex_student ex_db = Inr (projr (users_insert ex_student ex_db))"
    by (cases "users_insert ex_student ex_db") auto
  have inv: "\<forall>u\<in>set (users ex_db). u_role u = student \<longrightarrow> u_student_id u \<noteq> None"
    by (simp add: ex_db_def)
  have rej: "isl (users_insert (ex_student\<lparr>u_student_id := None\<rparr>) ex_db)"
    by code_simp
  note r = students_have_student_id[OF ok inv]
  have ids: "map u_student_id (filter (\<lambda>u. u_role u = student) (users ex_db @ [ex_student]))
     = [Some ''S3'', Some ''S4'', Some ''S6'']"
    by code_simp
  from r[THEN conjunct1] ids
  have students: "map u_student_id (filter (\<lambda>u. u_role u = student) (users (projr (users_insert ex_student ex_db))))
     = [Some ''S3'', Some ''S4'', Some ''S6'']"
    by simp
  show ?thesis
    by (intro conjI) (rule isr, rule r[THEN conjunct1], rule students, rule rej)
qed

theorem admin_with_student_id_counterexample:
  "\<not> isl (users_insert ex_admin_with_student_id ex_db) \<and>
   ex_admin_with_student_id \<in> set (users (projr (users_insert ex_admin_with_student_id ex_db))) \<and>
   u_role ex_admin_with_student_id = admin \<and>
   u_student_id ex_admin_with_student_id = Some ''S5''"
  by code_simp



text \<open>
  C10. An approval of one transaction changes at most one account, the one of the
  transaction's owner, and of that account only \<open>balance\<close> and \<open>last_updated\<close>:
  the table keeps its rows in place, every row is its old version up to these two
  fields, a row of another owner is its old version, and at most one row differs from
  its old version. Ids of transactions and owners of accounts are unique, as the
  schema makes them.
\<close>

theorem approval_touches_one_account:
  assumes ok: "handleStatusChange auth_uid transactionId approved now d = Inr d'"
    and pkey: "transactions_pkey d"
    and t: "t \<in> set (transactions d)" "t_id t = transactionId"
    and ukey: "accounts_user_id_key d"
  shows "length (accounts d') = length (accounts d) \<and>
         (\<forall>i<length (accounts d).
            accounts d' ! i = (accounts d ! i)\<lparr>a_balance := a_balance (accounts d' ! i),
                                               a_last_updated := a_last_updated (accounts d' ! i)\<rparr> \<and>
            (a_user_id (accounts d ! i) \<noteq> t_user_id t \<longrightarrow> accounts d' ! i = accounts d ! i)) \<and>
         length (filter (\<lambda>(a, a'). a' \<noteq> a) (zip (accounts d) (accounts d'))) \<le> 1"
proof -
  let ?g = "credited (t_user_id t) (signed_amount t) now"
  from handleStatusChange_accounts[OF ok pkey t]
  have "accounts d' = accounts d \<or> accounts d' = map ?g (accounts d)" by simp
  then show ?thesis
  proof
    assume "accounts d' = accounts d"
    then show ?thesis by (simp add: filter_unchanged)
  next
    assume m: "accounts d' = map ?g (accounts d)"
    have 1: "length (accounts d') = length (accounts d)" using m by simp
    have 2: "\<forall>i<length (accounts d).
            accounts d' ! i = (accounts d ! i)\<lparr>a_balance := a_balance (accounts d' ! i),
                                               a_last_updated := a_last_updated (accounts d' ! i)\<rparr> \<and>
            (a_user_id (accounts d ! i) \<noteq> t_user_id t \<longrightarrow> accounts d' ! i = accounts d ! i)"
    proof (intro allI impI)
      fix i assume i: "i < length (accounts d)"
      then have e: "accounts d' ! i = ?g (accounts d ! i)" using m by simp
      show "accounts d' ! i = (accounts d ! i)\<lparr>a_balance := a_balance (accounts d' ! i),
                                               a_last_updated := a_last_updated (accounts d' ! i)\<rparr> \<and>
            (a_user_id (accounts d ! i) \<noteq> t_user_id t \<longrightarrow> accounts d' ! i = accounts d ! i)"
        unfolding e using credited_fields[of "t_user_id t" "signed_amount t" now "accounts d ! i"]
        by (auto simp: credited_other)
    qed
    have "length (filter (\<lambda>(a, a'). a' \<noteq> a) (zip (accounts d) (accounts d')))
            = length (filter (\<lambda>a. ?g a \<noteq> a) (accounts d))"
      unfolding m by (simp add: filter_changed)
    also have "\<dots> \<le> length (filter (\<lambda>a. a_user_id a = t_user_id t) (accounts d))"
      by (rule length_filter_mono) (metis credited_other)
    also have "\<dots> \<le> 1"
      using ukey unfolding accounts_user_id_key_def by (rule distinct_filter_le_1)
    finally have 3: "length (filter (\<lambda>(a, a'). a' \<noteq> a) (zip (accounts d) (accounts d'))) \<le> 1" .
    from 1 2 3 show ?thesis by (intro conjI)
  qed
qed

theorem approval_touches_one_account_witness:
  "\<not> isl (handleStatusChange (Some 1) 11 approved 7 ex_db) \<and>
   accounts ex_db =
     [\<lparr>a_id = 20, a_user_id = 3, a_balance = Some 5000, a_last_updated = Some 0, a_created_at = Some 0\<rparr>,
      \<lparr>a_id = 21, a_user_id = 1, a_balance = Some 0, a_last_updated = Some 0, a_created_at = Some 0\<rparr>] \<and>
   accounts (projr (handleStatusChange (Some 1) 11 approved 7 ex_db)) =
     [\<lparr>a_id = 20, a_user_id = 3, a_balance = Some 2000, a_last_updated = Some 7, a_created_at = Some 0\<rparr>,
      \<lparr>a_id = 21, a_user_id = 1, a_balance = Some 0, a_last_updated = Some 0, a_created_at = Some 0\<rparr>] \<and>
   length (filter (\<lambda>(a, a'). a' \<noteq> a)
     (zip (accounts ex_db) (accounts (projr (handleStatusChange (Some 1) 11 approved 7 ex_db))))) \<le> 1"
proof -
  let ?t = "\<lparr>t_id = 11, t_user_id = 3, t_type = fee, t_amount = 3000, t_description = ''library'',
             t_status = Some pending, t_approved_by = None, t_created_at = Some 2\<rparr>"
  let ?d' = "projr (handleStatusChange (Some 1) 11 approved 7 ex_db)"
  have isr: "\<not> isl (handleStatusChange (Some 1) 11 approved 7 ex_db)"
    by code_simp
  then have ok: "handleStatusChange (Some 1) 11 approved 7 ex_db = Inr ?d'"
    by (cases "handleStatusChange (Some 1) 11 approved 7 ex_db") auto
  have t: "?t \<in> set (transactions ex_db)" "t_id ?t = 11"
    by (simp_all add: ex_db_def)
  have before: "accounts ex_db =
     [\<lparr>a_id = 20, a_user_id = 3, a_balance = Some 5000, a_last_updated = Some 0, a_created_at = Some 0\<rparr>,
      \<lparr>a_id = 21, a_user_id = 1, a_balance = Some 0, a_last_updated = Some 0, a_created_at = Some 0\<rparr>]"
    by (simp add: ex_db_def)
  have after: "accounts ?d' =
     [\<lparr>a_id = 20, a_user_id = 3, a_balance = Some 2000, a_last_updated = Some 7, a_created_at = Some 0\<rparr>,
      \<lparr>a_id = 21, a_user_id = 1, a_balance = Some 0, a_last_updated = Some 0, a_created_at = Some 0\<rparr>]"
    by code_simp
  note r = approval_touches_one_account[OF ok ex_db_pkey t ex_db_ukey]
  show ?thesis
    by (intro conjI) (rule isr, rule before, rule after, rule r[THEN conjunct2, THEN conjunct2])
qed

end
